theory Spec2Isabelle
  imports
    Main
    "HOL-Library.Sublist"
    "HOL-Library.Multiset"
    "HOL-Library.Char_ord"
    "HOL-Library.List_Lexorder"
    "HOL-Library.Product_Lexorder"
begin

section \<open>The configuration module \<open>diff_config.py\<close>\<close>

text \<open>
  The module \<^verbatim>\<open>tools/api-gap-report/src/diff_config.py\<close> is, after its
  interpreter line, three assignment statements. Each binds a module-level name to a
  string literal written inside a pair of grouping parentheses:
  \<^verbatim>\<open>
  DISCOVERY_DOC_URL = (
      "https://www.googleapis.com/discovery/v1/apis/compute/v1/rest"
  )
  DISCOVERY_DOC_URL_BETA = (
      "https://www.googleapis.com/discovery/v1/apis/compute/beta/rest"
  )
  YAML_CONFIG_PATH = (
      "./config.yaml"
  )
  \<close>
\<close>

subsection \<open>The three constants\<close>

definition DISCOVERY_DOC_URL :: string where
  "DISCOVERY_DOC_URL = ''https://www.googleapis.com/discovery/v1/apis/compute/v1/rest''"

definition DISCOVERY_DOC_URL_BETA :: string where
  "DISCOVERY_DOC_URL_BETA = ''https://www.googleapis.com/discovery/v1/apis/compute/beta/rest''"

definition YAML_CONFIG_PATH :: string where
  "YAML_CONFIG_PATH = ''./config.yaml''"

subsection \<open>The module as a program\<close>

text \<open>
  The abstract syntax covers the atoms of Python's expression grammar that a binding of a
  constant can be built from: a string literal, a parenthesised expression and a name.
  Only a name can fail to evaluate (Python raises \<open>NameError\<close> for an unbound one);
  the module uses none. The only statement form the module uses is the assignment to a
  single name.
\<close>

datatype expr = StrLit string | Paren expr | Name string

datatype stmt = Assign string expr

datatype error = NameError string

text \<open>
  A namespace lists the bindings in the order in which they were first made, as a Python
  module dictionary does; rebinding a name keeps its place.
\<close>

type_synonym namespace = "(string \<times> string) list"

fun bind_name :: "string \<Rightarrow> string \<Rightarrow> namespace \<Rightarrow> namespace" where
  "bind_name x v [] = [(x, v)]"
| "bind_name x v ((y, w) # ns) = (if x = y then (y, v) # ns else (y, w) # bind_name x v ns)"

fun eval_expr :: "namespace \<Rightarrow> expr \<Rightarrow> error + string" where
  "eval_expr ns (StrLit s) = Inr s"
| "eval_expr ns (Paren e) = eval_expr ns e"
| "eval_expr ns (Name x) = (case map_of ns x of None \<Rightarrow> Inl (NameError x) | Some v \<Rightarrow> Inr v)"

fun exec_stmt :: "namespace \<Rightarrow> stmt \<Rightarrow> error + namespace" where
  "exec_stmt ns (Assign x e) =
     (case eval_expr ns e of Inl err \<Rightarrow> Inl err | Inr v \<Rightarrow> Inr (bind_name x v ns))"

fun exec_module :: "namespace \<Rightarrow> stmt list \<Rightarrow> error + namespace" where
  "exec_module ns [] = Inr ns"
| "exec_module ns (s # ss) =
     (case exec_stmt ns s of Inl err \<Rightarrow> Inl err | Inr ns' \<Rightarrow> exec_module ns' ss)"

text \<open>A literal, possibly inside grouping parentheses: evaluating it computes nothing.\<close>

fun is_literal :: "expr \<Rightarrow> bool" where
  "is_literal (StrLit s) = True"
| "is_literal (Paren e) = is_literal e"
| "is_literal (Name x) = False"

fun binds_literal :: "stmt \<Rightarrow> bool" where
  "binds_literal (Assign x e) = is_literal e"

fun target :: "stmt \<Rightarrow> string" where
  "target (Assign x e) = x"

definition diff_config :: "stmt list" where
  "diff_config =
     [Assign ''DISCOVERY_DOC_URL''
        (Paren (StrLit ''https://www.googleapis.com/discovery/v1/apis/compute/v1/rest'')),
      Assign ''DISCOVERY_DOC_URL_BETA''
        (Paren (StrLit ''https://www.googleapis.com/discovery/v1/apis/compute/beta/rest'')),
      Assign ''YAML_CONFIG_PATH''
        (Paren (StrLit ''./config.yaml''))]"

subsection \<open>String operations used to state the properties\<close>

text \<open>Python's \<open>s.startswith(p)\<close> and \<open>s.endswith(p)\<close>.\<close>

definition startswith :: "string \<Rightarrow> string \<Rightarrow> bool" where
  "startswith s p = (take (length p) s = p)"

definition endswith :: "string \<Rightarrow> string \<Rightarrow> bool" where
  "endswith s p = (length p \<le> length s \<and> drop (length s - length p) s = p)"

text \<open>Python's \<open>sub in s\<close> on strings: \<open>sub\<close> occurs in \<open>s\<close> as a contiguous run.\<close>

fun contains :: "string \<Rightarrow> string \<Rightarrow> bool" where
  "contains [] sub = (sub = [])"
| "contains (c # s) sub = (startswith (c # s) sub \<or> contains s sub)"

text \<open>
  Python's \<open>s.split(sep)\<close> for a separator of one character: the pieces between the
  separators, empty pieces included. \<open>split_acc\<close> carries the piece being read,
  reversed.
\<close>

fun split_acc :: "char \<Rightarrow> string \<Rightarrow> string \<Rightarrow> string list" where
  "split_acc sep acc [] = [rev acc]"
| "split_acc sep acc (c # s) =
     (if c = sep then rev acc # split_acc sep [] s else split_acc sep (c # acc) s)"

definition split :: "char \<Rightarrow> string \<Rightarrow> string list" where
  "split sep s = split_acc sep [] s"

text \<open>
  File names are resolved as POSIX does, in the words of Python's \<open>posixpath\<close>:
  a name is absolute when it starts with a slash; the last component is what follows the
  last slash; a name that is not absolute is read relative to a directory by joining the
  two with one slash between them.
\<close>

definition isabs :: "string \<Rightarrow> bool" where
  "isabs p = startswith p ''/''"

definition basename :: "string \<Rightarrow> string" where
  "basename p = last (split CHR ''/'' p)"

definition join :: "string \<Rightarrow> string \<Rightarrow> string" where
  "join a b =
     (if startswith b ''/'' then b
      else if a = [] \<or> endswith a ''/'' then a @ b
      else a @ ''/'' @ b)"

section \<open>The comparison pipeline of the specification\<close>

text \<open>
  The configuration module holds no processing logic. The specification describes the
  pipeline its constants feed: a comparator \<open>diff\<close> of two discovery documents and
  a \<open>filter\<close> of its output against expectation entries. The definitions below
  follow sections 3 and 4.3 of the specification, which are quoted at each of them.
\<close>

text \<open>
  Modelled from the spec: the Discovery Document, whose code is missing. "A tree keyed by
  resource name, each resource containing a mapping of method name to method descriptor",
  "a well-formed nested mapping". A mapping lists its entries in the order of the source
  document, as a Python dictionary does; what is not a mapping is a leaf value.
\<close>

datatype 'v doc = Leaf 'v | Mapping "(string \<times> 'v doc) list"

text \<open>
  Modelled from the spec: the well-formed nested mapping, whose code is missing. A
  dictionary holds a key once, at every level.
\<close>

fun wf_doc :: "'v doc \<Rightarrow> bool" where
  "wf_doc (Leaf v) = True"
| "wf_doc (Mapping ms) = (distinct (map fst ms) \<and> list_all (\<lambda>e. wf_doc (snd e)) ms)"

text \<open>
  Modelled from the spec: the Gap record, whose code is missing.
  "A record \<open>{path: sequence of string, kind: Added|Removed|Changed, detail: description}\<close>
  describing one structural difference between two documents at a given path." The
  detail of a \<open>Changed\<close> gap describes "old vs new value" of two differing leaves; a
  type mismatch "is recorded as a \<open>Changed\<close> gap" too, and is described as such; the
  specification gives an added or removed key no detail.
\<close>

datatype kind = Added | Removed | Changed

datatype 'v detail = NoDetail | ValueChanged 'v 'v | TypeMismatch

record 'v gap =
  path :: "string list"
  kind :: kind
  detail :: "'v detail"

text \<open>
  Modelled from the spec: the recursive walk of \<open>diff\<close>, whose code is missing.
  "Recursively walk both trees in lock-step by key. At each node: key present only in
  beta: emit \<open>Added\<close> at that path; key present only in stable: emit \<open>Removed\<close> at
  that path; key present in both but with differing leaf values: emit \<open>Changed\<close> with
  a detail describing old vs new value; key present in both with identical subtree: no
  gap, recurse only if the subtree is itself a mapping." The first argument is the path
  of the node; the keys of the stable mapping are visited first, then those of the beta
  mapping, each in the order of its document.
\<close>

fun walk :: "string list \<Rightarrow> 'v doc \<Rightarrow> 'v doc \<Rightarrow> 'v gap list" where
  "walk p (Leaf a) (Leaf b) =
     (if a = b then [] else [\<lparr>path = p, kind = Changed, detail = ValueChanged a b\<rparr>])"
| "walk p (Leaf a) (Mapping ns) = [\<lparr>path = p, kind = Changed, detail = TypeMismatch\<rparr>]"
| "walk p (Mapping ms) (Leaf b) = [\<lparr>path = p, kind = Changed, detail = TypeMismatch\<rparr>]"
| "walk p (Mapping ms) (Mapping ns) =
     concat (map (\<lambda>(k, v). case map_of ns k of
                     None \<Rightarrow> [\<lparr>path = p @ [k], kind = Removed, detail = NoDetail\<rparr>]
                   | Some w \<Rightarrow> walk (p @ [k]) v w) ms)
     @ concat (map (\<lambda>(k, w). case map_of ms k of
                     None \<Rightarrow> [\<lparr>path = p @ [k], kind = Added, detail = NoDetail\<rparr>]
                   | Some v \<Rightarrow> []) ns)"

text \<open>
  Modelled from the spec: the order of a Gap Set, whose code is missing. "An ordered
  sequence of Gap, deterministic ordering by path then kind"; "paths are compared
  lexicographically by their component sequence". Kinds are ranked in the order in which
  the specification lists them.
\<close>

fun kind_rank :: "kind \<Rightarrow> nat" where
  "kind_rank Added = 0"
| "kind_rank Removed = 1"
| "kind_rank Changed = 2"

definition gap_key :: "'v gap \<Rightarrow> string list \<times> nat" where
  "gap_key g = (path g, kind_rank (kind g))"

text \<open>
  Modelled from the spec: the comparator \<open>diff\<close>, whose code is missing.
  "\<open>diff(stable: Discovery Document, beta: Discovery Document) -> Gap Set\<close>": the gaps
  of the walk from the root, put in the order of a Gap Set.
\<close>

definition diff :: "'v doc \<Rightarrow> 'v doc \<Rightarrow> 'v gap list" where
  "diff stable_doc beta_doc = sort_key gap_key (walk [] stable_doc beta_doc)"

text \<open>
  Two documents are the same up to the ordering of their keys when sorting the entries
  of every mapping by key makes them equal.
\<close>

fun canonical :: "'v doc \<Rightarrow> 'v doc" where
  "canonical (Leaf v) = Leaf v"
| "canonical (Mapping ms) = Mapping (sort_key fst (map (\<lambda>(k, v). (k, canonical v)) ms))"

text \<open>
  Modelled from the spec: the Expectation Entry, whose code is missing. It "identifies a
  specific resource/method/parameter path and a disposition (\<open>ignore-addition\<close>,
  \<open>ignore-removal\<close>, \<open>ignore-change\<close>)"; the disposition names the kind of gap it
  suppresses.
\<close>

datatype disposition = IgnoreAddition | IgnoreRemoval | IgnoreChange

record expectation_entry =
  entry_path :: "string list"
  disposition :: disposition

fun suppressed_kind :: "disposition \<Rightarrow> kind" where
  "suppressed_kind IgnoreAddition = Added"
| "suppressed_kind IgnoreRemoval = Removed"
| "suppressed_kind IgnoreChange = Changed"

text \<open>
  Modelled from the spec: the suppression rule of \<open>filter\<close>, whose code is missing.
  "A gap is suppressed iff an Expectation Entry exists whose path is a prefix-or-exact
  match of the gap's path and whose kind matches."
\<close>

definition entry_matches :: "expectation_entry \<Rightarrow> 'v gap \<Rightarrow> bool" where
  "entry_matches e g = (prefix (entry_path e) (path g) \<and> suppressed_kind (disposition e) = kind g)"

definition is_suppressed :: "expectation_entry set \<Rightarrow> 'v gap \<Rightarrow> bool" where
  "is_suppressed es g = (\<exists>e\<in>es. entry_matches e g)"

text \<open>
  Modelled from the spec: the operation \<open>filter\<close>, whose code is missing.
  "\<open>filter(gaps: Gap Set, expectations: set of Expectation Entry) -> (reported: Gap Set,
  suppressed: Gap Set)\<close>": the gaps no entry suppresses, and the suppressed ones, each
  in the order of the input.
\<close>

definition filter_gaps :: "'v gap list \<Rightarrow> expectation_entry set \<Rightarrow> 'v gap list \<times> 'v gap list" where
  "filter_gaps gaps es = (filter (\<lambda>g. \<not> is_suppressed es g) gaps, filter (is_suppressed es) gaps)"

subsection \<open>Example documents\<close>

text \<open>
  The stable and beta documents of the specification's scenario,
  \<^verbatim>\<open>{"instances": {"list": {"verb": "GET"}}}\<close> and
  \<^verbatim>\<open>{"instances": {"list": {"verb": "GET"}, "insert": {"verb": "POST"}}}\<close>,
  and the expectation entry of its second scenario.
\<close>

definition scenario_stable :: "string doc" where
  "scenario_stable =
     Mapping [(''instances'', Mapping [(''list'', Mapping [(''verb'', Leaf ''GET'')])])]"

definition scenario_beta :: "string doc" where
  "scenario_beta =
     Mapping [(''instances'', Mapping [(''list'', Mapping [(''verb'', Leaf ''GET'')]),
                                       (''insert'', Mapping [(''verb'', Leaf ''POST'')])])]"

definition scenario_entry :: expectation_entry where
  "scenario_entry = \<lparr>entry_path = [''instances'', ''insert''], disposition = IgnoreAddition\<rparr>"

text \<open>
  A larger pair, and the same pair with the keys of every mapping in another order.
\<close>

definition stable_a :: "string doc" where
  "stable_a =
     Mapping [(''instances'', Mapping [(''list'', Mapping [(''verb'', Leaf ''GET'')]),
                                       (''get'', Mapping [(''verb'', Leaf ''GET'')])]),
              (''zones'', Mapping [])]"

definition stable_b :: "string doc" where
  "stable_b =
     Mapping [(''zones'', Mapping []),
              (''instances'', Mapping [(''get'', Mapping [(''verb'', Leaf ''GET'')]),
                                       (''list'', Mapping [(''verb'', Leaf ''GET'')])])]"

definition beta_a :: "string doc" where
  "beta_a =
     Mapping [(''instances'', Mapping [(''list'', Mapping [(''verb'', Leaf ''PUT'')]),
                                       (''insert'', Mapping [(''verb'', Leaf ''POST'')])])]"

definition beta_b :: "string doc" where
  "beta_b =
     Mapping [(''instances'', Mapping [(''insert'', Mapping [(''verb'', Leaf ''POST'')]),
                                       (''list'', Mapping [(''verb'', Leaf ''PUT'')])])]"

section \<open>Properties of the configuration module\<close>

text \<open>
  C1: the module defines exactly three module-level string constants
  (\<open>DISCOVERY_DOC_URL\<close>, \<open>DISCOVERY_DOC_URL_BETA\<close>, \<open>YAML_CONFIG_PATH\<close>) and
  nothing else. Its statements are three assignments, to these names in this order; the
  right-hand side of each is a string literal, so running it computes nothing and takes
  no branch; from every starting namespace the run succeeds and makes these three
  bindings only; and from the empty namespace the result binds exactly the three names,
  each to its literal.
\<close>

theorem diff_config_binds_three_literals:
  "map target diff_config = [''DISCOVERY_DOC_URL'', ''DISCOVERY_DOC_URL_BETA'', ''YAML_CONFIG_PATH'']
   \<and> list_all binds_literal diff_config
   \<and> (\<forall>ns. exec_module ns diff_config =
          Inr (bind_name ''YAML_CONFIG_PATH'' YAML_CONFIG_PATH
                (bind_name ''DISCOVERY_DOC_URL_BETA'' DISCOVERY_DOC_URL_BETA
                  (bind_name ''DISCOVERY_DOC_URL'' DISCOVERY_DOC_URL ns))))
   \<and> exec_module [] diff_config =
         Inr [(''DISCOVERY_DOC_URL'', DISCOVERY_DOC_URL),
              (''DISCOVERY_DOC_URL_BETA'', DISCOVERY_DOC_URL_BETA),
              (''YAML_CONFIG_PATH'', YAML_CONFIG_PATH)]"
  by (simp add: diff_config_def DISCOVERY_DOC_URL_def DISCOVERY_DOC_URL_BETA_def
      YAML_CONFIG_PATH_def)

text \<open>
  C2: the two URL constants are the stable and the beta description of the same API. Cut
  at the slashes, both have nine segments; the segments before the eighth and after it
  are the same in both; the eighth, the version segment, is \<open>v1\<close> in
  \<open>DISCOVERY_DOC_URL\<close> and \<open>beta\<close> in \<open>DISCOVERY_DOC_URL_BETA\<close>.
\<close>

theorem discovery_urls_differ_in_version_segment:
  "length (split CHR ''/'' DISCOVERY_DOC_URL) = 9
   \<and> length (split CHR ''/'' DISCOVERY_DOC_URL_BETA) = 9
   \<and> take 7 (split CHR ''/'' DISCOVERY_DOC_URL) = take 7 (split CHR ''/'' DISCOVERY_DOC_URL_BETA)
   \<and> drop 8 (split CHR ''/'' DISCOVERY_DOC_URL) = drop 8 (split CHR ''/'' DISCOVERY_DOC_URL_BETA)
   \<and> split CHR ''/'' DISCOVERY_DOC_URL ! 7 = ''v1''
   \<and> split CHR ''/'' DISCOVERY_DOC_URL_BETA ! 7 = ''beta''"
  by (simp add: split_def DISCOVERY_DOC_URL_def DISCOVERY_DOC_URL_BETA_def)

text \<open>
  C3: both discovery endpoint constants are HTTP(S) URLs: \<open>DISCOVERY_DOC_URL\<close> and
  \<open>DISCOVERY_DOC_URL_BETA\<close> each begin with the scheme \<open>https://\<close>.
\<close>

theorem discovery_urls_https:
  "startswith DISCOVERY_DOC_URL ''https://'' \<and> startswith DISCOVERY_DOC_URL_BETA ''https://''"
  by (simp add: startswith_def DISCOVERY_DOC_URL_def DISCOVERY_DOC_URL_BETA_def)

text \<open>
  C4: \<open>YAML_CONFIG_PATH\<close> is the path of a local YAML file: it is the string
  \<open>./config.yaml\<close>; it is a file name and not a URL (no scheme separator \<open>://\<close>
  occurs in it); and its last component, \<open>config.yaml\<close>, ends with the extension
  \<open>.yaml\<close>.
\<close>

theorem yaml_config_path_is_local_yaml_file:
  "YAML_CONFIG_PATH = ''./config.yaml''
   \<and> \<not> contains YAML_CONFIG_PATH ''://''
   \<and> basename YAML_CONFIG_PATH = ''config.yaml''
   \<and> endswith (basename YAML_CONFIG_PATH) ''.yaml''"
  by (simp add: YAML_CONFIG_PATH_def startswith_def endswith_def basename_def split_def)

text \<open>
  C9: both URL constants point at the discovery documents of Google's Compute API: each
  starts with \<open>https://www.googleapis.com/discovery/v1/apis/compute/\<close> and ends with
  \<open>/rest\<close>.
\<close>

theorem discovery_urls_google_compute:
  "startswith DISCOVERY_DOC_URL ''https://www.googleapis.com/discovery/v1/apis/compute/''
   \<and> startswith DISCOVERY_DOC_URL_BETA ''https://www.googleapis.com/discovery/v1/apis/compute/''
   \<and> endswith DISCOVERY_DOC_URL ''/rest''
   \<and> endswith DISCOVERY_DOC_URL_BETA ''/rest''"
  by (simp add: startswith_def endswith_def DISCOVERY_DOC_URL_def DISCOVERY_DOC_URL_BETA_def)

text \<open>
  C10: \<open>YAML_CONFIG_PATH\<close> is a relative path: it begins with \<open>./\<close> and is not
  absolute, so the file it names depends on the working directory. Read from a working
  directory, the full name always begins with that directory, and two different
  directories (here \<open>/srv/a\<close> and \<open>/srv/b\<close>) give two different files.
\<close>

theorem yaml_config_path_relative:
  "startswith YAML_CONFIG_PATH ''./''
   \<and> \<not> isabs YAML_CONFIG_PATH
   \<and> (\<forall>cwd. startswith (join cwd YAML_CONFIG_PATH) cwd)
   \<and> join ''/srv/a'' YAML_CONFIG_PATH = ''/srv/a/./config.yaml''
   \<and> join ''/srv/b'' YAML_CONFIG_PATH = ''/srv/b/./config.yaml''
   \<and> join ''/srv/a'' YAML_CONFIG_PATH \<noteq> join ''/srv/b'' YAML_CONFIG_PATH"
  by (simp add: YAML_CONFIG_PATH_def startswith_def endswith_def isabs_def join_def)

section \<open>Properties of the comparison pipeline\<close>

subsection \<open>The scenarios of the specification\<close>

lemma scenario_diff:
  "diff scenario_stable scenario_beta =
     [\<lparr>path = [''instances'', ''insert''], kind = Added, detail = NoDetail\<rparr>]"
  by (simp add: diff_def scenario_stable_def scenario_beta_def)

lemma scenario_filter:
  "filter_gaps (diff scenario_stable scenario_beta) {scenario_entry} =
     ([], [\<lparr>path = [''instances'', ''insert''], kind = Added, detail = NoDetail\<rparr>])"
  by (simp add: scenario_diff filter_gaps_def is_suppressed_def entry_matches_def
      scenario_entry_def)

subsection \<open>Well-formed documents and the walk\<close>

lemma wf_child: "wf_doc (Mapping ms) \<Longrightarrow> (k, v) \<in> set ms \<Longrightarrow> wf_doc v"
  by (auto simp: list_all_iff)

lemma wf_lookup: "wf_doc (Mapping ms) \<Longrightarrow> map_of ms k = Some v \<Longrightarrow> wf_doc v"
  by (meson map_of_SomeD wf_child)

lemma walk_identical: "wf_doc d \<Longrightarrow> walk p d d = []"
proof (induction d arbitrary: p)
  case (Leaf v)
  show ?case by simp
next
  case (Mapping ms)
  have dist: "distinct (map fst ms)" using Mapping.prems by simp
  have "walk (p @ [k]) v v = []" if "(k, v) \<in> set ms" for k v
  proof -
    have "v \<in> Basic_BNFs.snds (k, v)" by simp
    moreover have "wf_doc v" using Mapping.prems that by (rule wf_child)
    ultimately show ?thesis using Mapping.IH that by blast
  qed
  moreover have "map_of ms k = Some v" if "(k, v) \<in> set ms" for k v
    using dist that by simp
  ultimately show ?case by (auto split: option.splits)
qed



lemma walk_path_prefix: "g \<in> set (walk p s b) \<Longrightarrow> prefix p (path g)"
proof (induction p s b arbitrary: g rule: walk.induct)
  case (4 p ms ns)
  from "4.prems" consider
      (left) k v where "(k, v) \<in> set ms"
        "g \<in> set (case map_of ns k of
                    None \<Rightarrow> [\<lparr>path = p @ [k], kind = Removed, detail = NoDetail\<rparr>]
                  | Some w \<Rightarrow> walk (p @ [k]) v w)"
    | (right) k w where "(k, w) \<in> set ns" "map_of ms k = None"
        "g = \<lparr>path = p @ [k], kind = Added, detail = NoDetail\<rparr>"
    by (auto split: option.splits)
  then show ?case
  proof cases
    case left
    then have "prefix (p @ [k]) (path g)"
      using "4.IH" by (cases "map_of ns k") auto
    then show ?thesis by (rule append_prefixD)
  next
    case right
    then show ?thesis by simp
  qed
qed (auto split: if_splits)


lemma map_of_sort_key: "distinct (map fst xs) \<Longrightarrow> map_of (sort_key fst xs) = map_of xs"
proof -
  assume d: "distinct (map fst xs)"
  have "mset (map fst (sort_key fst xs)) = mset (map fst xs)" by simp
  then have "distinct (map fst (sort_key fst xs))"
    using d mset_eq_imp_distinct_iff by blast
  then show ?thesis using d by (simp add: map_of_inject_set)
qed

lemma keys_canonical_entries: "map fst (map (\<lambda>(k, v). (k, canonical v)) xs) = map fst xs"
  by (induction xs) auto

lemma map_of_canonical_entries:
  "distinct (map fst xs) \<Longrightarrow>
   map_of (sort_key fst (map (\<lambda>(k, v). (k, canonical v)) xs)) k = map_option canonical (map_of xs k)"
proof -
  assume d: "distinct (map fst xs)"
  have "distinct (map fst (map (\<lambda>(k, v). (k, canonical v)) xs))"
    using d by (simp only: keys_canonical_entries)
  then show ?thesis by (simp only: map_of_sort_key map_of_map comp_def)
qed

lemma sum_list_sort_key_map:
  fixes F :: "'b \<Rightarrow> 'c multiset"
  shows "(\<Sum>e\<leftarrow>sort_key h (map c xs). F e) = (\<Sum>e\<leftarrow>xs. F (c e))"
proof -
  have "(\<Sum>e\<leftarrow>sort_key h (map c xs). F e) = sum_mset (image_mset F (mset (sort_key h (map c xs))))"
    by (simp flip: sum_mset_sum_list)
  also have "\<dots> = sum_mset (image_mset (\<lambda>e. F (c e)) (mset xs))"
    by (simp add: multiset.map_comp comp_def)
  also have "\<dots> = (\<Sum>e\<leftarrow>xs. F (c e))"
    by (simp flip: sum_mset_sum_list)
  finally show ?thesis .
qed

lemma wf_canonical: "wf_doc d \<Longrightarrow> wf_doc (canonical d)"
proof (induction d)
  case (Leaf v)
  show ?case by simp
next
  case (Mapping ms)
  let ?c = "\<lambda>(k, v). (k, canonical v)"
  have "mset (map fst (sort_key fst (map ?c ms))) = mset (map fst (map ?c ms))"
    by (simp only: mset_map mset_sort)
  then have "mset (map fst (sort_key fst (map ?c ms))) = mset (map fst ms)"
    by (simp only: keys_canonical_entries)
  moreover have "distinct (map fst ms)" using Mapping.prems by simp
  ultimately have "distinct (map fst (sort_key fst (map ?c ms)))"
    using mset_eq_imp_distinct_iff by blast
  moreover have "wf_doc (snd e)" if "e \<in> set (sort_key fst (map ?c ms))" for e
  proof -
    from that obtain k v where kv: "(k, v) \<in> set ms" and e: "e = (k, canonical v)" by auto
    have "v \<in> Basic_BNFs.snds (k, v)" by simp
    moreover have "wf_doc v" using Mapping.prems kv by (rule wf_child)
    ultimately have "wf_doc (canonical v)" using Mapping.IH kv by blast
    then show ?thesis using e by simp
  qed
  ultimately show ?case by (simp add: list_all_iff)
qed


text \<open>
  Listing the entries of a mapping in another order does not change its canonical form.
\<close>

lemma canonical_reorder:
  assumes "distinct (map fst ms)" and "mset ns = mset ms"
  shows "canonical (Mapping ns) = canonical (Mapping ms)"
proof -
  let ?c = "\<lambda>(k, v). (k, canonical v)"
  have "mset (map fst ns) = mset (map fst ms)"
    by (simp only: mset_map assms(2))
  then have "distinct (map fst ns)"
    using assms(1) mset_eq_imp_distinct_iff by blast
  then have "distinct (map fst (map ?c ns))"
    by (simp only: keys_canonical_entries)
  then have inj: "inj_on fst (set (map ?c ns))"
    by (simp only: distinct_map)
  have "sort_key fst (map ?c ns) = sort_key fst (map ?c ms)"
  proof (rule sort_key_inj_key_eq)
    show "mset (map ?c ns) = mset (sort_key fst (map ?c ms))"
      using assms(2) by (simp only: mset_sort mset_map)
    show "inj_on fst (set (map ?c ns))" by (rule inj)
    show "sorted (map fst (sort_key fst (map ?c ms)))" by (rule sorted_sort_key)
  qed
  then show ?thesis by simp
qed

lemma walk_canonical_mset:
  "wf_doc s \<Longrightarrow> wf_doc b \<Longrightarrow> mset (walk p (canonical s) (canonical b)) = mset (walk p s b)"
proof (induction p s b rule: walk.induct)
  case (4 p ms ns)
  let ?c = "\<lambda>(k, v). (k, canonical v)"
  let ?ms' = "sort_key fst (map ?c ms)"
  let ?ns' = "sort_key fst (map ?c ns)"
  let ?L = "\<lambda>ns (k, v). mset (case map_of ns k of
                None \<Rightarrow> [\<lparr>path = p @ [k], kind = Removed, detail = NoDetail\<rparr>]
              | Some w \<Rightarrow> walk (p @ [k]) v w)"
  let ?R = "\<lambda>ms (k, w :: 'a doc). mset (case map_of ms k of
                None \<Rightarrow> [\<lparr>path = p @ [k], kind = Added, detail = NoDetail :: 'a detail\<rparr>]
              | Some (v :: 'a doc) \<Rightarrow> [])"
  have dms: "distinct (map fst ms)" and dns: "distinct (map fst ns)"
    using "4.prems" by simp_all
  have look_ms: "map_of ?ms' k = map_option canonical (map_of ms k)" for k
    using dms by (rule map_of_canonical_entries)
  have look_ns: "map_of ?ns' k = map_option canonical (map_of ns k)" for k
    using dns by (rule map_of_canonical_entries)
  have split: "mset (walk p (Mapping xs) (Mapping ys)) = (\<Sum>e\<leftarrow>xs. ?L ys e) + (\<Sum>e\<leftarrow>ys. ?R xs e)"
    for xs ys :: "(string \<times> 'a doc) list"
    by (simp add: mset_concat comp_def case_prod_unfold)
  have left: "?L ?ns' (?c e) = ?L ns e" if "e \<in> set ms" for e
  proof (cases e)
    case (Pair k v)
    show ?thesis
    proof (cases "map_of ns k")
      case None
      then show ?thesis using Pair by (simp add: look_ns)
    next
      case (Some w)
      have "wf_doc v" using "4.prems"(1) that Pair wf_child by blast
      moreover have "wf_doc w" using "4.prems"(2) Some by (rule wf_lookup)
      ultimately have "mset (walk (p @ [k]) (canonical v) (canonical w)) = mset (walk (p @ [k]) v w)"
        using "4.IH" that Pair Some by blast
      then show ?thesis using Pair Some by (simp add: look_ns)
    qed
  qed
  have right: "?R ?ms' (?c e) = ?R ms e" for e
    by (cases e; cases "map_of ms (fst e)") (simp_all add: look_ms)
  have "mset (walk p (canonical (Mapping ms)) (canonical (Mapping ns)))
        = (\<Sum>e\<leftarrow>?ms'. ?L ?ns' e) + (\<Sum>e\<leftarrow>?ns'. ?R ?ms' e)"
    by (simp only: canonical.simps split)
  also have "\<dots> = (\<Sum>e\<leftarrow>ms. ?L ?ns' (?c e)) + (\<Sum>e\<leftarrow>ns. ?R ?ms' (?c e))"
    by (simp only: sum_list_sort_key_map)
  also have "\<dots> = (\<Sum>e\<leftarrow>ms. ?L ns e) + (\<Sum>e\<leftarrow>ns. ?R ms e)"
    using left right by (simp cong: map_cong)
  also have "\<dots> = mset (walk p (Mapping ms) (Mapping ns))"
    by (simp only: split)
  finally show ?case .
qed simp_all


lemma prefix_snoc_same: "prefix (p @ [k]) q \<Longrightarrow> prefix (p @ [k']) q \<Longrightarrow> k = k'"
  by (auto simp: prefix_def)

lemma walk_path_inj: "wf_doc s \<Longrightarrow> wf_doc b \<Longrightarrow> inj_on path (set (walk p s b))"
proof (induction p s b rule: walk.induct)
  case (4 p ms ns)
  define contrib where "contrib k =
    (case map_of ms k of
       None \<Rightarrow> (case map_of ns k of
                 None \<Rightarrow> []
               | Some w \<Rightarrow> [\<lparr>path = p @ [k], kind = Added, detail = NoDetail\<rparr>])
     | Some v \<Rightarrow> (case map_of ns k of
                 None \<Rightarrow> [\<lparr>path = p @ [k], kind = Removed, detail = NoDetail\<rparr>]
               | Some w \<Rightarrow> walk (p @ [k]) v w))" for k
  have dms: "distinct (map fst ms)" and dns: "distinct (map fst ns)"
    using "4.prems" by simp_all
  have origin: "\<exists>k. g \<in> set (contrib k)" if "g \<in> set (walk p (Mapping ms) (Mapping ns))" for g
  proof -
    from that consider
        (left) k v where "(k, v) \<in> set ms"
          "g \<in> set (case map_of ns k of
                      None \<Rightarrow> [\<lparr>path = p @ [k], kind = Removed, detail = NoDetail\<rparr>]
                    | Some w \<Rightarrow> walk (p @ [k]) v w)"
      | (right) k w where "(k, w) \<in> set ns" "map_of ms k = None"
          "g = \<lparr>path = p @ [k], kind = Added, detail = NoDetail\<rparr>"
      by (auto split: option.splits)
    then show ?thesis
    proof cases
      case left
      have "map_of ms k = Some v" using dms left(1) by simp
      then have "g \<in> set (contrib k)" using left(2) by (simp add: contrib_def)
      then show ?thesis ..
    next
      case right
      have "map_of ns k = Some w" using dns right(1) by simp
      then have "g \<in> set (contrib k)" using right(2,3) by (simp add: contrib_def)
      then show ?thesis ..
    qed
  qed
  have below: "prefix (p @ [k]) (path g)" if "g \<in> set (contrib k)" for g k
    using that walk_path_prefix
    by (fastforce simp: contrib_def split: option.splits)
  have inj: "inj_on path (set (contrib k))" for k
  proof (cases "map_of ms k")
    case None
    then show ?thesis by (cases "map_of ns k") (simp_all add: contrib_def)
  next
    case (Some v)
    note v = this
    show ?thesis
    proof (cases "map_of ns k")
      case None
      then show ?thesis using v by (simp add: contrib_def)
    next
      case (Some w)
      have "(k, v) \<in> set ms" using v by (rule map_of_SomeD)
      moreover have "wf_doc v" using "4.prems"(1) v by (rule wf_lookup)
      moreover have "wf_doc w" using "4.prems"(2) Some by (rule wf_lookup)
      ultimately have "inj_on path (set (walk (p @ [k]) v w))"
        using "4.IH" Some by blast
      then show ?thesis using v Some by (simp add: contrib_def)
    qed
  qed
  show ?case
  proof (rule inj_onI)
    fix g h
    assume g: "g \<in> set (walk p (Mapping ms) (Mapping ns))"
      and h: "h \<in> set (walk p (Mapping ms) (Mapping ns))"
      and eq: "path g = path h"
    from origin [OF g] obtain k where k: "g \<in> set (contrib k)" ..
    from origin [OF h] obtain k' where k': "h \<in> set (contrib k')" ..
    have "prefix (p @ [k]) (path g)" using k by (rule below)
    moreover have "prefix (p @ [k']) (path g)" using k' eq by (simp add: below)
    ultimately have "k = k'" by (rule prefix_snoc_same)
    then show "g = h" using inj [of k] k k' eq by (auto dest: inj_onD)
  qed
qed (simp_all)

lemma gap_key_inj: "inj_on path A \<Longrightarrow> inj_on gap_key A"
  by (rule inj_onI) (auto simp: gap_key_def dest: inj_onD)

lemma diff_canonical:
  assumes "wf_doc s" "wf_doc b"
  shows "diff (canonical s) (canonical b) = diff s b"
  unfolding diff_def
proof (rule sort_key_inj_key_eq)
  show "mset (walk [] (canonical s) (canonical b)) = mset (sort_key gap_key (walk [] s b))"
    using assms by (simp add: walk_canonical_mset)
  have "wf_doc (canonical s)" "wf_doc (canonical b)" using assms by (simp_all add: wf_canonical)
  then show "inj_on gap_key (set (walk [] (canonical s) (canonical b)))"
    by (intro gap_key_inj walk_path_inj)
  show "sorted (map gap_key (sort_key gap_key (walk [] s b)))"
    by (rule sorted_sort_key)
qed

subsection \<open>Identical documents\<close>

text \<open>
  C5: for every pair of identical discovery documents, \<open>diff\<close> applied to the pair
  returns an empty Gap Set. A discovery document is a nested mapping, so each of its
  mappings holds a key once.
\<close>

theorem diff_identical_empty: "wf_doc d \<Longrightarrow> diff d d = []"
  by (simp add: diff_def walk_identical)

theorem diff_identical_empty_witness:
  "wf_doc scenario_beta \<and> diff scenario_beta scenario_beta = []"
proof -
  have wf: "wf_doc scenario_beta" by (simp add: scenario_beta_def)
  then have "diff scenario_beta scenario_beta = []" by (rule diff_identical_empty)
  with wf show ?thesis by (rule conjI)
qed

subsection \<open>Independence of the key order\<close>

text \<open>
  C6: \<open>diff\<close> is deterministic with respect to the ordering of keys in its inputs.
  When the stable documents of two runs are the same nested mapping up to the order of
  their keys, and so are the beta documents, both runs produce the same Gap Set, and
  that Gap Set is ordered by path, then kind.
\<close>

theorem diff_key_order_independent:
  assumes "wf_doc s" "wf_doc s'" "wf_doc b" "wf_doc b'"
    and "canonical s = canonical s'" "canonical b = canonical b'"
  shows "diff s b = diff s' b' \<and> sorted (map gap_key (diff s b))"
proof
  have "diff s b = diff (canonical s) (canonical b)"
    using assms(1,3) by (simp add: diff_canonical)
  also have "\<dots> = diff (canonical s') (canonical b')"
    by (simp only: assms(5,6))
  also have "\<dots> = diff s' b'"
    using assms(2,4) by (rule diff_canonical)
  finally show "diff s b = diff s' b'" .
  show "sorted (map gap_key (diff s b))"
    unfolding diff_def by (rule sorted_sort_key)
qed

theorem diff_key_order_independent_witness:
  "wf_doc stable_a \<and> wf_doc stable_b \<and> wf_doc beta_a \<and> wf_doc beta_b
   \<and> canonical stable_a = canonical stable_b \<and> canonical beta_a = canonical beta_b
   \<and> stable_a \<noteq> stable_b \<and> beta_a \<noteq> beta_b
   \<and> walk [] stable_a beta_a \<noteq> walk [] stable_b beta_b
   \<and> diff stable_b beta_b =
        [\<lparr>path = [''instances'', ''get''], kind = Removed, detail = NoDetail\<rparr>,
         \<lparr>path = [''instances'', ''insert''], kind = Added, detail = NoDetail\<rparr>,
         \<lparr>path = [''instances'', ''list'', ''verb''], kind = Changed,
            detail = ValueChanged ''GET'' ''PUT''\<rparr>,
         \<lparr>path = [''zones''], kind = Removed, detail = NoDetail\<rparr>]
   \<and> diff stable_a beta_a = diff stable_b beta_b
   \<and> sorted (map gap_key (diff stable_a beta_a))"
proof -
  have wf: "wf_doc stable_a" "wf_doc stable_b" "wf_doc beta_a" "wf_doc beta_b"
    by (simp_all add: stable_a_def stable_b_def beta_a_def beta_b_def)
  have same: "canonical stable_a = canonical stable_b" "canonical beta_a = canonical beta_b"
    by (simp_all add: stable_a_def stable_b_def beta_a_def beta_b_def)
  have other: "stable_a \<noteq> stable_b" "beta_a \<noteq> beta_b"
    "walk [] stable_a beta_a \<noteq> walk [] stable_b beta_b"
    by (simp_all add: stable_a_def stable_b_def beta_a_def beta_b_def)
  have run: "diff stable_b beta_b =
        [\<lparr>path = [''instances'', ''get''], kind = Removed, detail = NoDetail\<rparr>,
         \<lparr>path = [''instances'', ''insert''], kind = Added, detail = NoDetail\<rparr>,
         \<lparr>path = [''instances'', ''list'', ''verb''], kind = Changed,
            detail = ValueChanged ''GET'' ''PUT''\<rparr>,
         \<lparr>path = [''zones''], kind = Removed, detail = NoDetail\<rparr>]"
    by (simp add: diff_def stable_b_def beta_b_def gap_key_def)
  have "diff stable_a beta_a = diff stable_b beta_b
        \<and> sorted (map gap_key (diff stable_a beta_a))"
    using wf same by (rule diff_key_order_independent)
  with wf same other run show ?thesis by blast
qed

subsection \<open>Filtering\<close>

text \<open>
  C7: \<open>filter\<close> partitions the raw diff output. For every Gap Set and every set of
  Expectation Entries, each gap of the input is in exactly one of the two results,
  reported and suppressed; no gap is in both; the two results hold nothing but gaps of
  the input, and together hold every occurrence of the input once.
\<close>

theorem filter_gaps_partition:
  assumes "filter_gaps gaps es = (reported, suppressed)"
  shows "(\<forall>g \<in> set gaps. (g \<in> set reported) \<noteq> (g \<in> set suppressed))
       \<and> set reported \<inter> set suppressed = {}
       \<and> set reported \<union> set suppressed = set gaps
       \<and> mset reported + mset suppressed = mset gaps"
proof -
  have r: "reported = filter (\<lambda>g. \<not> is_suppressed es g) gaps"
    and s: "suppressed = filter (is_suppressed es) gaps"
    using assms by (simp_all add: filter_gaps_def)
  have "mset reported + mset suppressed = mset gaps"
    unfolding r s by (induction gaps) simp_all
  moreover have "\<forall>g \<in> set gaps. (g \<in> set reported) \<noteq> (g \<in> set suppressed)"
    unfolding r s by auto
  moreover have "set reported \<inter> set suppressed = {}"
    unfolding r s by auto
  moreover have "set reported \<union> set suppressed = set gaps"
    unfolding r s by auto
  ultimately show ?thesis by blast
qed

theorem filter_gaps_partition_witness:
  "filter_gaps (diff stable_a beta_a)
       {scenario_entry, \<lparr>entry_path = [''instances''], disposition = IgnoreRemoval\<rparr>}
     = ([\<lparr>path = [''instances'', ''list'', ''verb''], kind = Changed,
            detail = ValueChanged ''GET'' ''PUT''\<rparr>,
         \<lparr>path = [''zones''], kind = Removed, detail = NoDetail\<rparr>],
        [\<lparr>path = [''instances'', ''get''], kind = Removed, detail = NoDetail\<rparr>,
         \<lparr>path = [''instances'', ''insert''], kind = Added, detail = NoDetail\<rparr>])
   \<and> mset [\<lparr>path = [''instances'', ''list'', ''verb''], kind = Changed,
              detail = ValueChanged ''GET'' ''PUT''\<rparr>,
            \<lparr>path = [''zones''], kind = Removed, detail = NoDetail\<rparr>]
       + mset [\<lparr>path = [''instances'', ''get''], kind = Removed, detail = NoDetail\<rparr>,
               \<lparr>path = [''instances'', ''insert''], kind = Added, detail = NoDetail\<rparr>]
       = mset (diff stable_a beta_a)"
proof -
  have run: "filter_gaps (diff stable_a beta_a)
       {scenario_entry, \<lparr>entry_path = [''instances''], disposition = IgnoreRemoval\<rparr>}
     = ([\<lparr>path = [''instances'', ''list'', ''verb''], kind = Changed,
            detail = ValueChanged ''GET'' ''PUT''\<rparr>,
         \<lparr>path = [''zones''], kind = Removed, detail = NoDetail\<rparr>],
        [\<lparr>path = [''instances'', ''get''], kind = Removed, detail = NoDetail\<rparr>,
         \<lparr>path = [''instances'', ''insert''], kind = Added, detail = NoDetail\<rparr>])"
    by (simp add: diff_def stable_a_def beta_a_def gap_key_def filter_gaps_def
        is_suppressed_def entry_matches_def scenario_entry_def)
  from filter_gaps_partition [OF run] run show ?thesis by blast
qed

end
